theory Spec2Isabelle
  imports Complex_Main
begin

section \<open>The page: elements, captured references, host state\<close>

text \<open>
  The script \<open>main.js\<close> is four module closures (Navigation, DonationModal, SmoothScroll,
  StatsAnimation) that capture DOM elements once, when the script is evaluated, and then
  react to events. A captured reference that \<open>querySelector\<close> or \<open>getElementById\<close>
  did not find is \<open>null\<close>: here \<open>None\<close>. Reading a property of \<open>null\<close> raises
  \<open>TypeError\<close>; what a handler wrote before it raised stays written, so a handler
  returns the error (if any) together with the page it leaves behind.

  Strings are byte lists: the two glyphs and the accented label are written as their UTF-8
  bytes. No function of the script looks at the length of a string.
\<close>

datatype js_error = TypeError | SyntaxError

text \<open>The properties of a DOM element that the script reads or writes.\<close>

record element =
  classList :: "string list"
  aria_expanded :: "string option"
  innerHTML :: string
  innerText :: string
  display :: string
  opacity :: string
  disabled :: bool

text \<open>An element found by \<open>document.querySelector(targetId)\<close> in a link handler.\<close>

type_synonym node = nat

text \<open>Calls whose order matters and that leave no mark on the elements above.\<close>

datatype call =
    PreventDefault
  | ScrollIntoView node string string
  | CloseMenu
  | AnimateCounters
  | Unobserve

text \<open>
  One pending \<open>requestAnimationFrame(updateCount)\<close>: the closure of \<open>updateCount\<close> for
  the counter at index \<open>counter\<close>. JavaScript numbers are taken as exact rationals; double
  arithmetic agrees with that wherever every value is an integer below \<open>2^53\<close>.
\<close>

record chain =
  counter :: nat
  target :: rat
  originalText :: string
  increment :: rat
  current :: rat

record page =
  menuToggle :: "element option"
  mainNav :: "element option"
  modal :: "element option"
  openButtons :: "element list"
  closeBtn :: "element option"
  amountBtns :: "element list"
  processBtn :: "element option"
  step1 :: "element option"
  step2 :: "element option"
  closeSuccessBtn :: "element option"
  links :: "string list"
  statsSection :: "element option"
  counters :: "element list"
  hasAnimated :: bool
  frames :: "chain list"
  timers :: "nat list"
  clock :: nat
  calls :: "call list"
  querySelector :: "string \<Rightarrow> js_error + node option"

subsection \<open>DOMTokenList\<close>

definition contains :: "string \<Rightarrow> string list \<Rightarrow> bool" where
  "contains c cl = (c \<in> set cl)"

definition add :: "string \<Rightarrow> string list \<Rightarrow> string list" where
  "add c cl = (if c \<in> set cl then cl else cl @ [c])"

definition remove :: "string \<Rightarrow> string list \<Rightarrow> string list" where
  "remove c cl = removeAll c cl"

text \<open>\<open>classList.toggle\<close> returns whether the token is present afterwards.\<close>

definition toggle :: "string \<Rightarrow> string list \<Rightarrow> bool \<times> string list" where
  "toggle c cl = (if c \<in> set cl then (False, removeAll c cl) else (True, cl @ [c]))"

section \<open>Module 1: Navigation\<close>

text \<open>U+2630 (the hamburger) and U+2715 (the cross), in UTF-8.\<close>

definition glyph_menu :: string where
  "glyph_menu = [CHR 0xE2, CHR 0x98, CHR 0xB0]"

definition glyph_close :: string where
  "glyph_close = [CHR 0xE2, CHR 0x9C, CHR 0x95]"

text \<open>The listeners that the \<open>init\<close> functions attach.\<close>

datatype listener =
    MenuToggleL
  | LinkL
  | StatsObserverL
  | OpenL
  | CloseL
  | CloseSuccessL
  | BackdropL
  | AmountL
  | ProcessL

definition Navigation_init :: "page \<Rightarrow> listener list" where
  "Navigation_init s =
     (case menuToggle s of
        None \<Rightarrow> []
      | Some _ \<Rightarrow> (case mainNav s of None \<Rightarrow> [] | Some _ \<Rightarrow> [MenuToggleL]))"

text \<open>The click listener of the toggle button.\<close>

definition menuToggle_click :: "page \<Rightarrow> js_error option \<times> page" where
  "menuToggle_click s =
     (case mainNav s of
        None \<Rightarrow> (Some TypeError, s)
      | Some nav \<Rightarrow>
          let (isOpen, cl) = toggle ''is-open'' (classList nav);
              s1 = s\<lparr>mainNav := Some (nav\<lparr>classList := cl\<rparr>)\<rparr>
          in (case menuToggle s1 of
                None \<Rightarrow> (Some TypeError, s1)
              | Some tg \<Rightarrow>
                  (None, s1\<lparr>menuToggle := Some (tg
                     \<lparr>aria_expanded := Some (if isOpen then ''true'' else ''false''),
                      innerHTML := (if isOpen then glyph_close else glyph_menu)\<rparr>)\<rparr>)))"

definition closeMenu :: "page \<Rightarrow> js_error option \<times> page" where
  "closeMenu s =
     (case mainNav s of
        None \<Rightarrow> (Some TypeError, s)
      | Some nav \<Rightarrow>
          if contains ''is-open'' (classList nav) then
            let s1 = s\<lparr>mainNav := Some (nav\<lparr>classList := remove ''is-open'' (classList nav)\<rparr>)\<rparr>
            in (case menuToggle s1 of
                  None \<Rightarrow> (Some TypeError, s1)
                | Some tg \<Rightarrow>
                    (None, s1\<lparr>menuToggle := Some (tg
                       \<lparr>aria_expanded := Some ''false'', innerHTML := glyph_menu\<rparr>)\<rparr>))
          else (None, s))"

section \<open>Module 4: DonationModal\<close>

definition DonationModal_init :: "page \<Rightarrow> listener list" where
  "DonationModal_init s =
     (case modal s of
        None \<Rightarrow> []
      | Some _ \<Rightarrow>
          map (\<lambda>_. OpenL) (openButtons s)
          @ (case closeBtn s of None \<Rightarrow> [] | Some _ \<Rightarrow> [CloseL])
          @ (case closeSuccessBtn s of None \<Rightarrow> [] | Some _ \<Rightarrow> [CloseSuccessL])
          @ [BackdropL]
          @ map (\<lambda>_. AmountL) (amountBtns s)
          @ (case processBtn s of None \<Rightarrow> [] | Some _ \<Rightarrow> [ProcessL]))"

text \<open>\<open>CONFIRMAR DONACI\<close>, U+00D3, \<open>N\<close>.\<close>

definition label_confirm :: string where
  "label_confirm = ''CONFIRMAR DONACI'' @ [CHR 0xC3, CHR 0x93] @ ''N''"

definition label_processing :: string where
  "label_processing = ''Procesando...''"

definition resetModal :: "page \<Rightarrow> js_error option \<times> page" where
  "resetModal s =
     (case step1 s of
        None \<Rightarrow> (Some TypeError, s)
      | Some e1 \<Rightarrow>
          let s1 = s\<lparr>step1 := Some (e1\<lparr>display := ''block''\<rparr>)\<rparr>
          in (case step2 s1 of
                None \<Rightarrow> (Some TypeError, s1)
              | Some e2 \<Rightarrow>
                  let s2 = s1\<lparr>step2 := Some (e2\<lparr>display := ''none''\<rparr>)\<rparr>
                  in (case processBtn s2 of
                        None \<Rightarrow> (None, s2)
                      | Some b \<Rightarrow>
                          (None, s2\<lparr>processBtn := Some (b
                             \<lparr>innerText := label_confirm, opacity := ''1'',
                              disabled := False\<rparr>)\<rparr>))))"

text \<open>The click listener of every \<open>.btn--donate\<close> button.\<close>

definition openButton_click :: "page \<Rightarrow> js_error option \<times> page" where
  "openButton_click s =
     (let s0 = s\<lparr>calls := calls s @ [PreventDefault]\<rparr>
      in (case modal s0 of
            None \<Rightarrow> (Some TypeError, s0)
          | Some m \<Rightarrow>
              resetModal (s0\<lparr>modal := Some (m\<lparr>classList := add ''is-visible'' (classList m)\<rparr>)\<rparr>)))"

definition closeModal :: "page \<Rightarrow> js_error option \<times> page" where
  "closeModal s =
     (case modal s of
        None \<Rightarrow> (Some TypeError, s)
      | Some m \<Rightarrow> (None, s\<lparr>modal := Some (m\<lparr>classList := remove ''is-visible'' (classList m)\<rparr>)\<rparr>))"

text \<open>The click listener of the modal root; the flag is \<open>e.target === modal\<close>.\<close>

definition modal_click :: "bool \<Rightarrow> page \<Rightarrow> js_error option \<times> page" where
  "modal_click target_is_modal s = (if target_is_modal then closeModal s else (None, s))"

definition modify :: "nat \<Rightarrow> ('a \<Rightarrow> 'a) \<Rightarrow> 'a list \<Rightarrow> 'a list" where
  "modify i f xs = (if i < length xs then xs[i := f (xs ! i)] else xs)"

text \<open>The click listener of the amount button at index \<open>i\<close> of \<open>amountBtns\<close>.\<close>

definition amountBtn_click :: "nat \<Rightarrow> page \<Rightarrow> js_error option \<times> page" where
  "amountBtn_click i s =
     (let bs = map (\<lambda>b. b\<lparr>classList := remove ''selected'' (classList b)\<rparr>) (amountBtns s)
      in (None, s\<lparr>amountBtns := modify i (\<lambda>b. b\<lparr>classList := add ''selected'' (classList b)\<rparr>) bs\<rparr>))"

text \<open>
  The click listener of the payment button. It reads \<open>innerText\<close> into a constant that
  nothing uses, writes the three properties and starts the timer.
\<close>

definition processBtn_click :: "page \<Rightarrow> js_error option \<times> page" where
  "processBtn_click s =
     (case processBtn s of
        None \<Rightarrow> (Some TypeError, s)
      | Some b \<Rightarrow>
          (None, s\<lparr>processBtn := Some (b
                    \<lparr>innerText := label_processing, opacity := ''0.7'', disabled := True\<rparr>),
                  timers := timers s @ [clock s + 2000]\<rparr>))"

text \<open>The callback given to \<open>setTimeout\<close>.\<close>

definition payment_timeout :: "page \<Rightarrow> js_error option \<times> page" where
  "payment_timeout s =
     (case step1 s of
        None \<Rightarrow> (Some TypeError, s)
      | Some e1 \<Rightarrow>
          let s1 = s\<lparr>step1 := Some (e1\<lparr>display := ''none''\<rparr>)\<rparr>
          in (case step2 s1 of
                None \<Rightarrow> (Some TypeError, s1)
              | Some e2 \<Rightarrow> (None, s1\<lparr>step2 := Some (e2\<lparr>display := ''block''\<rparr>)\<rparr>)))"

section \<open>Module 2: SmoothScroll\<close>

definition SmoothScroll_init :: "page \<Rightarrow> listener list" where
  "SmoothScroll_init s = map (\<lambda>_. LinkL) (links s)"

text \<open>The click listener of a link whose \<open>href\<close> attribute is \<open>targetId\<close>.\<close>

definition link_click :: "string \<Rightarrow> page \<Rightarrow> js_error option \<times> page" where
  "link_click targetId s =
     (let s0 = s\<lparr>calls := calls s @ [PreventDefault]\<rparr>
      in if targetId = ''#'' then (None, s0)
         else (case querySelector s0 targetId of
                 Inl err \<Rightarrow> (Some err, s0)
               | Inr None \<Rightarrow> (None, s0)
               | Inr (Some targetElement) \<Rightarrow>
                   closeMenu (s0\<lparr>calls := calls s0
                     @ [ScrollIntoView targetElement ''smooth'' ''start'', CloseMenu]\<rparr>)))"

section \<open>Module 3: StatsAnimation\<close>

definition isDigit :: "char \<Rightarrow> bool" where
  "isDigit c = (c \<in> set ''0123456789'')"

text \<open>\<open>text.replace(/\D/g, '')\<close>\<close>

definition stripNonDigits :: "string \<Rightarrow> string" where
  "stripNonDigits txt = filter isDigit txt"

text \<open>Unary \<open>+\<close> on a string of digits; the empty string gives 0.\<close>

definition toNumber :: "string \<Rightarrow> rat" where
  "toNumber ds = of_nat (foldl (\<lambda>a c. 10 * a + (of_char c - 48)) 0 ds)"

definition Math_ceil :: "rat \<Rightarrow> int" where
  "Math_ceil x = \<lceil>x\<rceil>"

fun decimal :: "nat \<Rightarrow> string" where
  "decimal n =
     (if n < 10 then [''0123456789'' ! n]
      else decimal (n div 10) @ [''0123456789'' ! (n mod 10)])"

declare decimal.simps [simp del]

fun grouped :: "string \<Rightarrow> string" where
  "grouped ds =
     (if length ds \<le> 3 then ds
      else grouped (take (length ds - 3) ds) @ '','' @ drop (length ds - 3) ds)"

declare grouped.simps [simp del]

text \<open>
  \<open>Number.prototype.toLocaleString()\<close> of an integer, in a locale that groups by three
  digits with a comma (en-US), the locale of the page's own texts such as \<open>1,250+\<close>.
\<close>

definition toLocaleString :: "int \<Rightarrow> string" where
  "toLocaleString n =
     (if n < 0 then ''-'' @ grouped (decimal (nat (- n))) else grouped (decimal (nat n)))"

definition updateCount :: "chain \<Rightarrow> page \<Rightarrow> page" where
  "updateCount c s =
     (let c' = c\<lparr>current := current c + increment c\<rparr>
      in if current c' < target c' then
           s\<lparr>counters := modify (counter c')
                 (\<lambda>e. e\<lparr>innerText := toLocaleString (Math_ceil (current c'))\<rparr>) (counters s),
             frames := frames s @ [c']\<rparr>
         else
           s\<lparr>counters := modify (counter c')
                 (\<lambda>e. e\<lparr>innerText := originalText c'\<rparr>) (counters s)\<rparr>)"

text \<open>The body of \<open>counters.forEach\<close> for the counter at index \<open>i\<close>.\<close>

definition startCounter :: "nat \<Rightarrow> page \<Rightarrow> page" where
  "startCounter i s =
     (let txt = innerText (counters s ! i);
          tgt = toNumber (stripNonDigits txt);
          duration = 2000
      in updateCount
           \<lparr>counter = i, target = tgt, originalText = txt,
            increment = tgt / (duration / 16), current = 0\<rparr> s)"

definition animateCounters :: "page \<Rightarrow> page" where
  "animateCounters s = fold startCounter [0..<length (counters s)] s"

definition StatsAnimation_init :: "page \<Rightarrow> listener list" where
  "StatsAnimation_init s = (case statsSection s of None \<Rightarrow> [] | Some _ \<Rightarrow> [StatsObserverL])"

text \<open>The observer's callback, for one entry and for the list of entries.\<close>

definition observer_entry :: "bool \<Rightarrow> page \<Rightarrow> page" where
  "observer_entry isIntersecting s =
     (if isIntersecting \<and> \<not> hasAnimated s then
        let s1 = animateCounters (s\<lparr>calls := calls s @ [AnimateCounters]\<rparr>);
            s2 = s1\<lparr>hasAnimated := True\<rparr>
        in s2\<lparr>calls := calls s2 @ [Unobserve]\<rparr>
      else s)"

definition observer_callback :: "bool list \<Rightarrow> page \<Rightarrow> page" where
  "observer_callback entries s = fold observer_entry entries s"

section \<open>The initializer and the event loop\<close>

definition App_init :: "page \<Rightarrow> listener list" where
  "App_init s =
     Navigation_init s @ SmoothScroll_init s @ StatsAnimation_init s @ DonationModal_init s"

text \<open>
  What the host can deliver after \<open>App.init\<close>: a click on one of the elements, the
  observer's callback, an animation frame, and the passing of time (in ms).
\<close>

datatype event =
    MenuToggleClick
  | LinkClick string
  | OpenButtonClick nat
  | CloseBtnClick
  | CloseSuccessBtnClick
  | ModalClick bool
  | AmountBtnClick nat
  | ProcessBtnClick
  | Intersection "bool list"
  | AnimationFrame
  | Elapse nat

text \<open>An error that leaves a listener is reported and the event loop goes on.\<close>

definition task :: "js_error option \<times> page \<Rightarrow> js_error list \<times> page" where
  "task r = (case fst r of None \<Rightarrow> ([], snd r) | Some err \<Rightarrow> ([err], snd r))"

text \<open>Every pending frame callback runs once; what it requests runs in the next frame.\<close>

definition animationFrame :: "page \<Rightarrow> page" where
  "animationFrame s = fold updateCount (frames s) (s\<lparr>frames := []\<rparr>)"

text \<open>One run of the timer callback for each timer that is due, in the order they were set.\<close>

fun fire :: "nat list \<Rightarrow> page \<Rightarrow> js_error list \<times> page" where
  "fire [] s = ([], s)"
| "fire (t # ts) s =
     (let r = task (payment_timeout s); r' = fire ts (snd r) in (fst r @ fst r', snd r'))"

definition elapse :: "nat \<Rightarrow> page \<Rightarrow> js_error list \<times> page" where
  "elapse d s =
     (let t = clock s + d
      in fire (filter (\<lambda>due. due \<le> t) (timers s))
           (s\<lparr>clock := t, timers := filter (\<lambda>due. t < due) (timers s)\<rparr>))"

definition dispatch :: "event \<Rightarrow> page \<Rightarrow> js_error list \<times> page" where
  "dispatch ev s =
     (case ev of
        MenuToggleClick \<Rightarrow>
          if MenuToggleL \<in> set (App_init s) then task (menuToggle_click s) else ([], s)
      | LinkClick href \<Rightarrow>
          if href \<in> set (links s) then task (link_click href s) else ([], s)
      | OpenButtonClick i \<Rightarrow>
          if OpenL \<in> set (App_init s) \<and> i < length (openButtons s)
          then task (openButton_click s) else ([], s)
      | CloseBtnClick \<Rightarrow>
          if CloseL \<in> set (App_init s) then task (closeModal s) else ([], s)
      | CloseSuccessBtnClick \<Rightarrow>
          if CloseSuccessL \<in> set (App_init s) then task (closeModal s) else ([], s)
      | ModalClick target_is_modal \<Rightarrow>
          if BackdropL \<in> set (App_init s) then task (modal_click target_is_modal s) else ([], s)
      | AmountBtnClick i \<Rightarrow>
          if AmountL \<in> set (App_init s) \<and> i < length (amountBtns s)
          then task (amountBtn_click i s) else ([], s)
      | ProcessBtnClick \<Rightarrow>
          if ProcessL \<in> set (App_init s) then task (processBtn_click s) else ([], s)
      | Intersection entries \<Rightarrow>
          if StatsObserverL \<in> set (App_init s) then ([], observer_callback entries s) else ([], s)
      | AnimationFrame \<Rightarrow> ([], animationFrame s)
      | Elapse d \<Rightarrow> elapse d s)"

fun run :: "event list \<Rightarrow> page \<Rightarrow> js_error list \<times> page" where
  "run [] s = ([], s)"
| "run (ev # evs) s =
     (let r = dispatch ev s; r' = run evs (snd r) in (fst r @ fst r', snd r'))"

section \<open>A page to run the script on\<close>

text \<open>
  An element with nothing set, and a page that has every element the script looks for: a
  menu, the donation modal with two open buttons and three amount buttons, two counters,
  and four fragment links. Its \<open>querySelector\<close> is the host's for this page: the page has
  an element with id \<open>team\<close> (node 0) and none with id \<open>about\<close>; the footnote link
  \<open>#1\<close> is not a selector at all (an id selector cannot start with a digit), and
  \<open>document.querySelector\<close> throws a \<open>SyntaxError\<close> for it.
\<close>

definition blank :: element where
  "blank =
     \<lparr>classList = [], aria_expanded = None, innerHTML = [], innerText = [],
      display = [], opacity = [], disabled = False\<rparr>"

definition foundation_page :: page where
  "foundation_page =
     \<lparr>menuToggle = Some (blank\<lparr>innerHTML := glyph_menu\<rparr>),
      mainNav = Some blank,
      modal = Some blank,
      openButtons = [blank, blank],
      closeBtn = Some blank,
      amountBtns = [blank, blank, blank],
      processBtn = Some (blank\<lparr>innerText := label_confirm\<rparr>),
      step1 = Some blank,
      step2 = Some blank,
      closeSuccessBtn = Some blank,
      links = [''#'', ''#team'', ''#about'', ''#1''],
      statsSection = Some blank,
      counters = [blank\<lparr>innerText := ''1,250+''\<rparr>, blank\<lparr>innerText := ''98%''\<rparr>],
      hasAnimated = False, frames = [], timers = [], clock = 0, calls = [],
      querySelector =
        (\<lambda>sel. if sel = ''#team'' then Inr (Some 0)
               else if sel = ''#1'' then Inl SyntaxError
               else Inr None)\<rparr>"

section \<open>Projections used in the proofs\<close>

text \<open>The page without what the counter animation writes.\<close>

definition beside_counters :: "page \<Rightarrow> page" where
  "beside_counters s = s\<lparr>counters := [], frames := []\<rparr>"

text \<open>
  The page without anything a handler writes: which elements exist, how many buttons and
  counters there are, the links and the host's selector engine.
\<close>

definition wiring :: "page \<Rightarrow> page" where
  "wiring s = s
     \<lparr>menuToggle := map_option (\<lambda>_. blank) (menuToggle s),
      mainNav := map_option (\<lambda>_. blank) (mainNav s),
      modal := map_option (\<lambda>_. blank) (modal s),
      amountBtns := map (\<lambda>_. blank) (amountBtns s),
      processBtn := map_option (\<lambda>_. blank) (processBtn s),
      step1 := map_option (\<lambda>_. blank) (step1 s),
      step2 := map_option (\<lambda>_. blank) (step2 s),
      counters := map (\<lambda>_. blank) (counters s),
      hasAnimated := False, frames := [], timers := [], clock := 0, calls := []\<rparr>"

text \<open>How many amount buttons carry the \<open>selected\<close> class.\<close>

definition selected_count :: "page \<Rightarrow> nat" where
  "selected_count s = length (filter (\<lambda>b. contains ''selected'' (classList b)) (amountBtns s))"

text \<open>How often \<open>animateCounters\<close> was called.\<close>

definition animations :: "page \<Rightarrow> nat" where
  "animations s = count_list (calls s) AnimateCounters"

text \<open>The time that passes during a list of events.\<close>

fun elapsed :: "event list \<Rightarrow> nat" where
  "elapsed [] = 0"
| "elapsed (Elapse d # evs) = d + elapsed evs"
| "elapsed (_ # evs) = elapsed evs"

text \<open>The page without the amount buttons, the only place the selection is written to.\<close>

definition forget_selection :: "page \<Rightarrow> page" where
  "forget_selection s = s\<lparr>amountBtns := []\<rparr>"

fun is_amount_click :: "event \<Rightarrow> bool" where
  "is_amount_click (AmountBtnClick i) = True"
| "is_amount_click _ = False"





section \<open>Lemmas: listeners, frames, evaluation\<close>

lemmas init_defs = App_init_def Navigation_init_def SmoothScroll_init_def StatsAnimation_init_def DonationModal_init_def

lemma MenuToggleL_iff: "MenuToggleL \<in> set (App_init s) \<longleftrightarrow> menuToggle s \<noteq> None \<and> mainNav s \<noteq> None"
  by (cases "menuToggle s"; cases "mainNav s"; cases "modal s"; cases "closeBtn s"; cases "closeSuccessBtn s";
      cases "processBtn s"; cases "statsSection s"; simp add: init_defs image_constant_conv)

lemma OpenL_iff: "OpenL \<in> set (App_init s) \<longleftrightarrow> modal s \<noteq> None \<and> openButtons s \<noteq> []"
  by (cases "menuToggle s"; cases "mainNav s"; cases "modal s"; cases "closeBtn s"; cases "closeSuccessBtn s";
      cases "processBtn s"; cases "statsSection s"; simp add: init_defs image_constant_conv)

lemma AmountL_iff: "AmountL \<in> set (App_init s) \<longleftrightarrow> modal s \<noteq> None \<and> amountBtns s \<noteq> []"
  by (cases "menuToggle s"; cases "mainNav s"; cases "modal s"; cases "closeBtn s"; cases "closeSuccessBtn s";
      cases "processBtn s"; cases "statsSection s"; simp add: init_defs image_constant_conv)

lemma ProcessL_iff: "ProcessL \<in> set (App_init s) \<longleftrightarrow> modal s \<noteq> None \<and> processBtn s \<noteq> None"
  by (cases "menuToggle s"; cases "mainNav s"; cases "modal s"; cases "closeBtn s"; cases "closeSuccessBtn s";
      cases "processBtn s"; cases "statsSection s"; simp add: init_defs image_constant_conv)

lemma CloseL_iff: "CloseL \<in> set (App_init s) \<longleftrightarrow> modal s \<noteq> None \<and> closeBtn s \<noteq> None"
  by (cases "menuToggle s"; cases "mainNav s"; cases "modal s"; cases "closeBtn s"; cases "closeSuccessBtn s";
      cases "processBtn s"; cases "statsSection s"; simp add: init_defs image_constant_conv)

lemma CloseSuccessL_iff: "CloseSuccessL \<in> set (App_init s) \<longleftrightarrow> modal s \<noteq> None \<and> closeSuccessBtn s \<noteq> None"
  by (cases "menuToggle s"; cases "mainNav s"; cases "modal s"; cases "closeBtn s"; cases "closeSuccessBtn s";
      cases "processBtn s"; cases "statsSection s"; simp add: init_defs image_constant_conv)

lemma BackdropL_iff: "BackdropL \<in> set (App_init s) \<longleftrightarrow> modal s \<noteq> None"
  by (cases "menuToggle s"; cases "mainNav s"; cases "modal s"; cases "closeBtn s"; cases "closeSuccessBtn s";
      cases "processBtn s"; cases "statsSection s"; simp add: init_defs image_constant_conv)

lemma StatsObserverL_iff: "StatsObserverL \<in> set (App_init s) \<longleftrightarrow> statsSection s \<noteq> None"
  by (cases "menuToggle s"; cases "mainNav s"; cases "modal s"; cases "closeBtn s"; cases "closeSuccessBtn s";
      cases "processBtn s"; cases "statsSection s"; simp add: init_defs image_constant_conv)

lemmas listener_iffs = MenuToggleL_iff OpenL_iff AmountL_iff ProcessL_iff CloseL_iff CloseSuccessL_iff BackdropL_iff StatsObserverL_iff

lemmas handler_defs = dispatch_def listener_iffs task_def menuToggle_click_def closeMenu_def toggle_def
  openButton_click_def resetModal_def closeModal_def modal_click_def amountBtn_click_def modify_def
  processBtn_click_def payment_timeout_def link_click_def elapse_def add_def remove_def contains_def Let_def

lemmas page_defs = foundation_page_def blank_def

lemma length_modify [simp]: "length (modify i f xs) = length xs"
  by (simp add: modify_def)

lemma beside_counters_fields:
  assumes "beside_counters t = beside_counters s"
  shows "menuToggle t = menuToggle s" "mainNav t = mainNav s" "modal t = modal s"
    "openButtons t = openButtons s" "closeBtn t = closeBtn s" "amountBtns t = amountBtns s"
    "processBtn t = processBtn s" "step1 t = step1 s" "step2 t = step2 s"
    "closeSuccessBtn t = closeSuccessBtn s" "links t = links s" "statsSection t = statsSection s"
    "hasAnimated t = hasAnimated s" "timers t = timers s" "clock t = clock s" "calls t = calls s"
    "querySelector t = querySelector s"
proof -
  have "f (beside_counters t) = f (beside_counters s)" for f :: "page \<Rightarrow> 'b"
    using assms by simp
  note * = this
  show "menuToggle t = menuToggle s" using * [of menuToggle] by (simp add: beside_counters_def)
  show "mainNav t = mainNav s" using * [of mainNav] by (simp add: beside_counters_def)
  show "modal t = modal s" using * [of modal] by (simp add: beside_counters_def)
  show "openButtons t = openButtons s" using * [of openButtons] by (simp add: beside_counters_def)
  show "closeBtn t = closeBtn s" using * [of closeBtn] by (simp add: beside_counters_def)
  show "amountBtns t = amountBtns s" using * [of amountBtns] by (simp add: beside_counters_def)
  show "processBtn t = processBtn s" using * [of processBtn] by (simp add: beside_counters_def)
  show "step1 t = step1 s" using * [of step1] by (simp add: beside_counters_def)
  show "step2 t = step2 s" using * [of step2] by (simp add: beside_counters_def)
  show "closeSuccessBtn t = closeSuccessBtn s" using * [of closeSuccessBtn] by (simp add: beside_counters_def)
  show "links t = links s" using * [of links] by (simp add: beside_counters_def)
  show "statsSection t = statsSection s" using * [of statsSection] by (simp add: beside_counters_def)
  show "hasAnimated t = hasAnimated s" using * [of hasAnimated] by (simp add: beside_counters_def)
  show "timers t = timers s" using * [of timers] by (simp add: beside_counters_def)
  show "clock t = clock s" using * [of clock] by (simp add: beside_counters_def)
  show "calls t = calls s" using * [of calls] by (simp add: beside_counters_def)
  show "querySelector t = querySelector s" using * [of querySelector] by (simp add: beside_counters_def)
qed

lemma updateCount_beside [simp]:
  "beside_counters (updateCount c s) = beside_counters s"
  "length (counters (updateCount c s)) = length (counters s)"
  by (simp_all add: updateCount_def Let_def beside_counters_def)

lemma fold_updateCount_beside [simp]:
  "beside_counters (fold updateCount l s) = beside_counters s
   \<and> length (counters (fold updateCount l s)) = length (counters s)"
  by (induction l arbitrary: s) simp_all

lemma animationFrame_beside [simp]:
  "beside_counters (animationFrame s) = beside_counters s"
  "length (counters (animationFrame s)) = length (counters s)"
  by (simp_all add: animationFrame_def) (simp add: beside_counters_def)

lemma startCounter_beside [simp]:
  "beside_counters (startCounter i s) = beside_counters s"
  "length (counters (startCounter i s)) = length (counters s)"
  by (simp_all add: startCounter_def Let_def)

lemma fold_startCounter_beside [simp]:
  "beside_counters (fold startCounter l s) = beside_counters s
   \<and> length (counters (fold startCounter l s)) = length (counters s)"
  by (induction l arbitrary: s) simp_all

lemma animateCounters_beside [simp]:
  "beside_counters (animateCounters s) = beside_counters s"
  "length (counters (animateCounters s)) = length (counters s)"
  by (simp_all add: animateCounters_def)

lemma map_const_length: "length xs = length ys \<Longrightarrow> map (\<lambda>_. c) xs = map (\<lambda>_. c) ys"
  by (simp add: map_replicate_const)

lemma wiring_beside:
  assumes "beside_counters t = beside_counters s" and "length (counters t) = length (counters s)"
  shows "wiring t = wiring s"
proof -
  have "t = (beside_counters t)\<lparr>counters := counters t, frames := frames t\<rparr>"
    by (simp add: beside_counters_def)
  then have "t = (beside_counters s)\<lparr>counters := counters t, frames := frames t\<rparr>"
    using assms(1) by simp
  then have "wiring t = wiring ((beside_counters s)\<lparr>counters := counters t, frames := frames t\<rparr>)"
    by simp
  also have "\<dots> = wiring s"
    using map_const_length [OF assms(2), of blank] by (simp add: wiring_def beside_counters_def)
  finally show ?thesis .
qed

lemma wiring_closeMenu [simp]: "wiring (snd (closeMenu s)) = wiring s"
  by (simp add: closeMenu_def wiring_def Let_def split: option.splits)

lemma wiring_menuToggle_click [simp]: "wiring (snd (menuToggle_click s)) = wiring s"
  by (simp add: menuToggle_click_def wiring_def Let_def toggle_def split: option.splits)

lemma wiring_link_click [simp]: "wiring (snd (link_click h s)) = wiring s"
proof -
  have "wiring (s\<lparr>calls := cs\<rparr>) = wiring s" for cs
    by (simp add: wiring_def)
  then show ?thesis
    by (simp add: link_click_def Let_def split: sum.splits option.splits)
qed

lemma wiring_resetModal [simp]: "wiring (snd (resetModal s)) = wiring s"
  by (simp add: resetModal_def wiring_def Let_def split: option.splits)

lemma wiring_openButton_click [simp]: "wiring (snd (openButton_click s)) = wiring s"
proof -
  have "wiring (s\<lparr>calls := cs\<rparr>) = wiring s" for cs
    by (simp add: wiring_def)
  moreover have "modal s = Some m \<Longrightarrow> wiring (s\<lparr>calls := cs, modal := Some m'\<rparr>) = wiring s" for cs m m'
    by (simp add: wiring_def)
  ultimately show ?thesis
    by (simp add: openButton_click_def Let_def split: option.splits)
qed

lemma wiring_closeModal [simp]: "wiring (snd (closeModal s)) = wiring s"
  by (simp add: closeModal_def wiring_def split: option.splits)

lemma wiring_modal_click [simp]: "wiring (snd (modal_click b s)) = wiring s"
  by (simp add: modal_click_def)

lemma wiring_amountBtn_click [simp]: "wiring (snd (amountBtn_click i s)) = wiring s"
  by (simp add: amountBtn_click_def wiring_def Let_def map_replicate_const)

lemma wiring_processBtn_click [simp]: "wiring (snd (processBtn_click s)) = wiring s"
  by (simp add: processBtn_click_def wiring_def split: option.splits)

lemma wiring_payment_timeout [simp]: "wiring (snd (payment_timeout s)) = wiring s"
  by (simp add: payment_timeout_def wiring_def Let_def split: option.splits)

lemma snd_task [simp]: "snd (task r) = snd r"
  by (simp add: task_def split: option.splits)

lemma wiring_fire [simp]: "wiring (snd (fire ts s)) = wiring s"
  by (induction ts arbitrary: s) (simp_all add: Let_def)

lemma wiring_elapse [simp]: "wiring (snd (elapse d s)) = wiring s"
  by (simp add: elapse_def Let_def) (simp add: wiring_def)

lemma wiring_animationFrame [simp]: "wiring (animationFrame s) = wiring s"
  by (rule wiring_beside) simp_all

lemma wiring_observer_entry [simp]: "wiring (observer_entry b s) = wiring s"
proof -
  have 1: "wiring (animateCounters u) = wiring u" for u
    by (rule wiring_beside) simp_all
  have 2: "wiring (u\<lparr>hasAnimated := h\<rparr>) = wiring u" for u h
    by (simp add: wiring_def)
  have 3: "wiring (u\<lparr>calls := cs\<rparr>) = wiring u" for u cs
    by (simp add: wiring_def)
  show ?thesis
    by (simp add: observer_entry_def Let_def 1 2 3)
qed

lemma wiring_observer_callback [simp]: "wiring (observer_callback es s) = wiring s"
  unfolding observer_callback_def by (induction es arbitrary: s) simp_all

lemma wiring_dispatch [simp]: "wiring (snd (dispatch ev s)) = wiring s"
  by (cases ev) (simp_all add: dispatch_def)

lemma wiring_run [simp]: "wiring (snd (run evs s)) = wiring s"
  by (induction evs arbitrary: s) (simp_all add: Let_def)

lemma wiring_fields:
  assumes "wiring t = wiring s"
  shows "(menuToggle t = None) = (menuToggle s = None)" "(mainNav t = None) = (mainNav s = None)"
    "(modal t = None) = (modal s = None)" "(processBtn t = None) = (processBtn s = None)"
    "(step1 t = None) = (step1 s = None)" "(step2 t = None) = (step2 s = None)"
    "length (amountBtns t) = length (amountBtns s)" "length (counters t) = length (counters s)"
    "openButtons t = openButtons s" "closeBtn t = closeBtn s" "closeSuccessBtn t = closeSuccessBtn s"
    "links t = links s" "statsSection t = statsSection s" "querySelector t = querySelector s"
proof -
  have "f (wiring t) = f (wiring s)" for f :: "page \<Rightarrow> 'b"
    using assms by simp
  note * = this
  show "(menuToggle t = None) = (menuToggle s = None)" using * [of menuToggle] by (simp add: wiring_def) (metis option.map_disc_iff)
  show "(mainNav t = None) = (mainNav s = None)" using * [of mainNav] by (simp add: wiring_def) (metis option.map_disc_iff)
  show "(modal t = None) = (modal s = None)" using * [of modal] by (simp add: wiring_def) (metis option.map_disc_iff)
  show "(processBtn t = None) = (processBtn s = None)" using * [of processBtn] by (simp add: wiring_def) (metis option.map_disc_iff)
  show "(step1 t = None) = (step1 s = None)" using * [of step1] by (simp add: wiring_def) (metis option.map_disc_iff)
  show "(step2 t = None) = (step2 s = None)" using * [of step2] by (simp add: wiring_def) (metis option.map_disc_iff)
  show "length (amountBtns t) = length (amountBtns s)" using * [of amountBtns] by (simp add: wiring_def) (metis length_map)
  show "length (counters t) = length (counters s)" using * [of counters] by (simp add: wiring_def) (metis length_map)
  show "openButtons t = openButtons s" using * [of openButtons] by (simp add: wiring_def)
  show "closeBtn t = closeBtn s" using * [of closeBtn] by (simp add: wiring_def)
  show "closeSuccessBtn t = closeSuccessBtn s" using * [of closeSuccessBtn] by (simp add: wiring_def)
  show "links t = links s" using * [of links] by (simp add: wiring_def)
  show "statsSection t = statsSection s" using * [of statsSection] by (simp add: wiring_def)
  show "querySelector t = querySelector s" using * [of querySelector] by (simp add: wiring_def)
qed

lemma run_append:
  "run (xs @ ys) s = (fst (run xs s) @ fst (run ys (snd (run xs s))), snd (run ys (snd (run xs s))))"
  by (induction xs arbitrary: s) (simp_all add: Let_def)

lemma contains_add [simp]: "contains c (add c cl)"
  by (simp add: contains_def add_def)

lemma not_contains_remove [simp]: "\<not> contains c (remove c cl)"
  by (simp add: contains_def remove_def)

lemma openButton_click_present:
  assumes "modal s = Some m" and "step1 s = Some e1" and "step2 s = Some e2"
  shows "openButton_click s =
    (None, s\<lparr>calls := calls s @ [PreventDefault],
             modal := Some (m\<lparr>classList := add ''is-visible'' (classList m)\<rparr>),
             step1 := Some (e1\<lparr>display := ''block''\<rparr>),
             step2 := Some (e2\<lparr>display := ''none''\<rparr>),
             processBtn := map_option
               (\<lambda>b. b\<lparr>innerText := label_confirm, opacity := ''1'', disabled := False\<rparr>) (processBtn s)\<rparr>)"
  using assms by (simp add: openButton_click_def resetModal_def Let_def split: option.splits)

lemma filter_update_one:
  "i < length bs \<Longrightarrow> \<forall>b \<in> set bs. \<not> P b \<Longrightarrow> P x \<Longrightarrow> length (filter P (bs[i := x])) = 1"
proof (induction bs arbitrary: i)
  case Nil
  then show ?case by simp
next
  case (Cons b bs)
  show ?case
  proof (cases i)
    case 0
    have "filter P bs = []" using Cons.prems(2) by (simp add: filter_empty_conv)
    then show ?thesis using 0 Cons.prems by simp
  next
    case (Suc k)
    then show ?thesis using Cons by simp
  qed
qed

lemma amountBtn_click_selected:
  assumes "i < length (amountBtns s)"
  shows "length (amountBtns (snd (amountBtn_click i s))) = length (amountBtns s)"
    and "j < length (amountBtns s) \<Longrightarrow>
           contains ''selected'' (classList (amountBtns (snd (amountBtn_click i s)) ! j)) = (j = i)"
    and "selected_count (snd (amountBtn_click i s)) = 1"
proof -
  let ?bs = "map (\<lambda>b. b\<lparr>classList := remove ''selected'' (classList b)\<rparr>) (amountBtns s)"
  let ?x = "(?bs ! i)\<lparr>classList := add ''selected'' (classList (?bs ! i))\<rparr>"
  have a: "amountBtns (snd (amountBtn_click i s)) = ?bs[i := ?x]"
    using assms by (simp add: amountBtn_click_def Let_def modify_def)
  show "length (amountBtns (snd (amountBtn_click i s))) = length (amountBtns s)"
    by (simp add: a)
  show "contains ''selected'' (classList (amountBtns (snd (amountBtn_click i s)) ! j)) = (j = i)"
    if "j < length (amountBtns s)"
    using that assms by (simp add: a nth_list_update)
  have "length (filter (\<lambda>b. contains ''selected'' (classList b)) (?bs[i := ?x])) = 1"
    by (rule filter_update_one) (use assms in auto)
  then show "selected_count (snd (amountBtn_click i s)) = 1"
    by (simp add: selected_count_def a)
qed

lemma beside_counters_observer_entry:
  "amountBtns (observer_entry b s) = amountBtns s"
proof -
  have "amountBtns (animateCounters u) = amountBtns u" for u
    by (rule beside_counters_fields) simp
  then show ?thesis by (simp add: observer_entry_def Let_def)
qed

lemma amountBtns_observer_callback: "amountBtns (observer_callback es s) = amountBtns s"
  unfolding observer_callback_def
  by (induction es arbitrary: s) (simp_all add: beside_counters_observer_entry)

lemma amountBtns_fire: "amountBtns (snd (fire ts s)) = amountBtns s"
  by (induction ts arbitrary: s) (simp_all add: Let_def payment_timeout_def split: option.splits)

lemma amountBtns_dispatch:
  "amountBtns (snd (dispatch ev s)) = amountBtns s
   \<or> (\<exists>i. ev = AmountBtnClick i \<and> i < length (amountBtns s)
          \<and> snd (dispatch ev s) = snd (amountBtn_click i s))"
proof (cases ev)
  case AnimationFrame
  have "amountBtns (animationFrame s) = amountBtns s"
    by (rule beside_counters_fields) simp
  then show ?thesis using AnimationFrame by (simp add: dispatch_def)
next
  case (LinkClick h)
  then show ?thesis
    by (simp add: dispatch_def link_click_def closeMenu_def Let_def split: sum.splits option.splits)
next
  case (Elapse d)
  then show ?thesis by (simp add: dispatch_def elapse_def Let_def amountBtns_fire)
qed (simp_all add: dispatch_def menuToggle_click_def toggle_def Let_def openButton_click_def resetModal_def
       closeModal_def modal_click_def processBtn_click_def amountBtns_observer_callback split: option.splits)

lemma selected_count_dispatch:
  "selected_count s \<le> 1 \<Longrightarrow> selected_count (snd (dispatch ev s)) \<le> 1"
  using amountBtns_dispatch [of ev s] amountBtn_click_selected(3)
  by (auto simp: selected_count_def)

lemma selected_count_run:
  "selected_count s \<le> 1 \<Longrightarrow> selected_count (snd (run evs s)) \<le> 1"
proof (induction evs arbitrary: s)
  case Nil
  then show ?case by simp
next
  case (Cons ev evs)
  have "selected_count (snd (dispatch ev s)) \<le> 1"
    using Cons.prems by (rule selected_count_dispatch)
  then have "selected_count (snd (run evs (snd (dispatch ev s)))) \<le> 1"
    by (rule Cons.IH)
  then show ?case by (simp add: Let_def)
qed

subsection \<open>The timer\<close>

lemma fire_clock_timers: "clock (snd (fire ts s)) = clock s \<and> timers (snd (fire ts s)) = timers s"
  by (induction ts arbitrary: s) (simp_all add: Let_def payment_timeout_def split: option.splits)

lemma observer_entry_clock_timers:
  "clock (observer_entry b s) = clock s \<and> timers (observer_entry b s) = timers s"
proof -
  have "clock (animateCounters u) = clock u \<and> timers (animateCounters u) = timers u" for u
    using beside_counters_fields(14,15) [of "animateCounters u" u] by simp
  then show ?thesis by (simp add: observer_entry_def Let_def)
qed

lemma observer_callback_clock_timers:
  "clock (observer_callback es s) = clock s \<and> timers (observer_callback es s) = timers s"
  unfolding observer_callback_def
  by (induction es arbitrary: s) (simp_all add: observer_entry_clock_timers)

lemma dispatch_clock_timers:
  "clock (snd (dispatch ev s)) = clock s + elapsed [ev]
   \<and> (\<forall>due. due \<in> set (timers s) \<and> clock s + elapsed [ev] < due
          \<longrightarrow> due \<in> set (timers (snd (dispatch ev s))))"
proof (cases ev)
  case AnimationFrame
  have "clock (animationFrame s) = clock s \<and> timers (animationFrame s) = timers s"
    using beside_counters_fields(14,15) [of "animationFrame s" s] by simp
  then show ?thesis using AnimationFrame by (simp add: dispatch_def)
next
  case (LinkClick h)
  then show ?thesis
    by (simp add: dispatch_def link_click_def closeMenu_def Let_def split: sum.splits option.splits)
next
  case (Elapse d)
  then show ?thesis by (simp add: dispatch_def elapse_def Let_def fire_clock_timers)
next
  case (Intersection es)
  then show ?thesis by (simp add: dispatch_def observer_callback_clock_timers)
qed (simp_all add: dispatch_def menuToggle_click_def toggle_def Let_def openButton_click_def resetModal_def
       closeModal_def modal_click_def processBtn_click_def amountBtn_click_def split: option.splits)

lemma elapsed_Cons: "elapsed (ev # evs) = elapsed [ev] + elapsed evs"
  by (cases ev) simp_all

lemma run_clock_timers:
  "clock (snd (run evs s)) = clock s + elapsed evs
   \<and> (due \<in> set (timers s) \<and> clock s + elapsed evs < due \<longrightarrow> due \<in> set (timers (snd (run evs s))))"
proof (induction evs arbitrary: s)
  case Nil
  then show ?case by simp
next
  case (Cons ev evs)
  let ?t = "snd (dispatch ev s)"
  have c: "clock ?t = clock s + elapsed [ev]"
    using dispatch_clock_timers [of ev s] by simp
  have t: "due \<in> set (timers s) \<and> clock s + elapsed [ev] < due \<longrightarrow> due \<in> set (timers ?t)"
    using dispatch_clock_timers [of ev s] by blast
  have e: "elapsed (ev # evs) = elapsed [ev] + elapsed evs"
    by (rule elapsed_Cons)
  show ?case
    using Cons.IH [of ?t] c t by (auto simp: Let_def e)
qed

lemma fire_present:
  assumes "step1 s = Some e1" and "step2 s = Some e2" and "ts \<noteq> []"
  shows "fire ts s = ([], s\<lparr>step1 := Some (e1\<lparr>display := ''none''\<rparr>), step2 := Some (e2\<lparr>display := ''block''\<rparr>)\<rparr>)"
  using assms
proof (induction ts arbitrary: s e1 e2)
  case Nil
  then show ?case by simp
next
  case (Cons t ts)
  let ?s' = "s\<lparr>step1 := Some (e1\<lparr>display := ''none''\<rparr>), step2 := Some (e2\<lparr>display := ''block''\<rparr>)\<rparr>"
  have p: "task (payment_timeout s) = ([], ?s')"
    using Cons.prems by (simp add: payment_timeout_def task_def)
  show ?case
  proof (cases "ts = []")
    case True
    then show ?thesis using p by (simp add: Let_def)
  next
    case False
    have "fire ts ?s' = ([], ?s'\<lparr>step1 := Some (e1\<lparr>display := ''none''\<rparr>\<lparr>display := ''none''\<rparr>),
        step2 := Some (e2\<lparr>display := ''block''\<rparr>\<lparr>display := ''block''\<rparr>)\<rparr>)"
      by (rule Cons.IH) (use False in simp_all)
    then show ?thesis using p by (simp add: Let_def)
  qed
qed

subsection \<open>The one-shot flag\<close>

lemma observer_entry_done: "hasAnimated s \<Longrightarrow> observer_entry b s = s"
  by (simp add: observer_entry_def)

lemma observer_entry_hasAnimated: "hasAnimated (observer_entry True s)"
  by (simp add: observer_entry_def Let_def)

lemma fold_observer_entry_done: "hasAnimated s \<Longrightarrow> fold observer_entry es s = s"
  by (induction es) (simp_all add: observer_entry_done)

lemma fold_observer_entry_first:
  "\<not> hasAnimated s \<Longrightarrow> fold observer_entry es s = (if True \<in> set es then observer_entry True s else s)"
proof (induction es)
  case Nil
  then show ?case by simp
next
  case (Cons e es)
  show ?case
  proof (cases e)
    case True
    then show ?thesis
      using fold_observer_entry_done [OF observer_entry_hasAnimated, of es s] by simp
  next
    case False
    then have "observer_entry e s = s" by (simp add: observer_entry_def)
    then show ?thesis using Cons False by simp
  qed
qed

lemma observer_entry_True:
  assumes "\<not> hasAnimated s"
  shows "hasAnimated (observer_entry True s)"
    and "calls (observer_entry True s) = calls s @ [AnimateCounters, Unobserve]"
    and "counters (observer_entry True s) = counters (animateCounters s)"
    and "frames (observer_entry True s) = frames (animateCounters s)"
proof -
  let ?s0 = "s\<lparr>calls := calls s @ [AnimateCounters]\<rparr>"
  have b: "beside_counters (animateCounters ?s0) = beside_counters ?s0" by simp
  have c: "calls (animateCounters ?s0) = calls s @ [AnimateCounters]"
    using beside_counters_fields(16) [OF b] by simp
  show "hasAnimated (observer_entry True s)" by (rule observer_entry_hasAnimated)
  show "calls (observer_entry True s) = calls s @ [AnimateCounters, Unobserve]"
    using assms c by (simp add: observer_entry_def Let_def)
  have g: "startCounter i (u\<lparr>calls := cs\<rparr>) = (startCounter i u)\<lparr>calls := cs\<rparr>" for i u cs
    by (simp add: startCounter_def updateCount_def Let_def)
  have f: "fold startCounter l (u\<lparr>calls := cs\<rparr>) = (fold startCounter l u)\<lparr>calls := cs\<rparr>" for l u cs
    by (induction l arbitrary: u) (simp_all add: g)
  have "animateCounters ?s0 = (animateCounters s)\<lparr>calls := calls s @ [AnimateCounters]\<rparr>"
    by (simp add: animateCounters_def f)
  then show "counters (observer_entry True s) = counters (animateCounters s)"
    and "frames (observer_entry True s) = frames (animateCounters s)"
    using assms by (simp_all add: observer_entry_def Let_def)
qed

lemma observer_callback_animations:
  "(hasAnimated s \<longrightarrow> observer_callback es s = s)
   \<and> (\<not> hasAnimated s \<longrightarrow>
        animations (observer_callback es s) =
          animations s + (if hasAnimated (observer_callback es s) then 1 else 0))"
proof (cases "hasAnimated s")
  case True
  then show ?thesis by (simp add: observer_callback_def fold_observer_entry_done)
next
  case False
  then show ?thesis
    using observer_entry_True(1,2) [OF False]
    by (simp add: observer_callback_def fold_observer_entry_first animations_def)
qed

lemma fire_animations:
  "hasAnimated (snd (fire ts s)) = hasAnimated s \<and> calls (snd (fire ts s)) = calls s"
  by (induction ts arbitrary: s) (simp_all add: Let_def payment_timeout_def split: option.splits)

lemma dispatch_animations:
  "(hasAnimated s \<longrightarrow> hasAnimated (snd (dispatch ev s)) \<and> animations (snd (dispatch ev s)) = animations s)
   \<and> (\<not> hasAnimated s \<longrightarrow>
        animations (snd (dispatch ev s)) =
          animations s + (if hasAnimated (snd (dispatch ev s)) then 1 else 0))"
proof (cases ev)
  case AnimationFrame
  have "hasAnimated (animationFrame s) = hasAnimated s \<and> calls (animationFrame s) = calls s"
    using beside_counters_fields(13,16) [of "animationFrame s" s] by simp
  then show ?thesis using AnimationFrame by (simp add: dispatch_def animations_def)
next
  case (LinkClick h)
  then show ?thesis
    by (simp add: dispatch_def link_click_def closeMenu_def Let_def animations_def split: sum.splits option.splits)
next
  case (Elapse d)
  then show ?thesis by (simp add: dispatch_def elapse_def Let_def fire_animations animations_def)
next
  case (Intersection es)
  then show ?thesis using observer_callback_animations [of s es] by (cases "hasAnimated s") (auto simp: dispatch_def)
qed (simp_all add: dispatch_def menuToggle_click_def toggle_def Let_def openButton_click_def resetModal_def
       closeModal_def modal_click_def processBtn_click_def amountBtn_click_def animations_def split: option.splits)

lemma run_animations:
  "(hasAnimated s \<longrightarrow> hasAnimated (snd (run evs s)) \<and> animations (snd (run evs s)) = animations s)
   \<and> (\<not> hasAnimated s \<longrightarrow>
        animations (snd (run evs s)) = animations s + (if hasAnimated (snd (run evs s)) then 1 else 0))"
proof (induction evs arbitrary: s)
  case Nil
  then show ?case by simp
next
  case (Cons ev evs)
  show ?case
    using Cons.IH [of "snd (dispatch ev s)"] dispatch_animations [of s ev]
    by (auto simp: Let_def split: if_splits)
qed

subsection \<open>The selection is never read\<close>

lemma forget_fields:
  assumes "forget_selection t = forget_selection s"
  shows "processBtn t = processBtn s" "step1 t = step1 s" "step2 t = step2 s" "modal t = modal s"
    "counters t = counters s" "calls t = calls s" "timers t = timers s" "clock t = clock s"
    "mainNav t = mainNav s" "menuToggle t = menuToggle s" "hasAnimated t = hasAnimated s" "frames t = frames s"
proof -
  have "f (forget_selection t) = f (forget_selection s)" for f :: "page \<Rightarrow> 'b"
    using assms by simp
  note * = this
  show "processBtn t = processBtn s" using * [of processBtn] by (simp add: forget_selection_def)
  show "step1 t = step1 s" using * [of step1] by (simp add: forget_selection_def)
  show "step2 t = step2 s" using * [of step2] by (simp add: forget_selection_def)
  show "modal t = modal s" using * [of modal] by (simp add: forget_selection_def)
  show "counters t = counters s" using * [of counters] by (simp add: forget_selection_def)
  show "calls t = calls s" using * [of calls] by (simp add: forget_selection_def)
  show "timers t = timers s" using * [of timers] by (simp add: forget_selection_def)
  show "clock t = clock s" using * [of clock] by (simp add: forget_selection_def)
  show "mainNav t = mainNav s" using * [of mainNav] by (simp add: forget_selection_def)
  show "menuToggle t = menuToggle s" using * [of menuToggle] by (simp add: forget_selection_def)
  show "hasAnimated t = hasAnimated s" using * [of hasAnimated] by (simp add: forget_selection_def)
  show "frames t = frames s" using * [of frames] by (simp add: forget_selection_def)
qed

lemma forget_idem [simp]: "forget_selection (forget_selection s) = forget_selection s"
  by (simp add: forget_selection_def)

lemma forget_closeMenu:
  "closeMenu (forget_selection s) = (fst (closeMenu s), forget_selection (snd (closeMenu s)))"
  by (simp add: closeMenu_def forget_selection_def Let_def split: option.splits)

lemma forget_menuToggle_click:
  "menuToggle_click (forget_selection s) = (fst (menuToggle_click s), forget_selection (snd (menuToggle_click s)))"
  by (simp add: menuToggle_click_def forget_selection_def Let_def toggle_def split: option.splits)

lemma forget_link_click:
  "link_click h (forget_selection s) = (fst (link_click h s), forget_selection (snd (link_click h s)))"
  by (simp add: link_click_def closeMenu_def forget_selection_def Let_def split: sum.splits option.splits)

lemma forget_openButton_click:
  "openButton_click (forget_selection s) = (fst (openButton_click s), forget_selection (snd (openButton_click s)))"
  by (simp add: openButton_click_def resetModal_def forget_selection_def Let_def split: option.splits)

lemma forget_closeModal:
  "closeModal (forget_selection s) = (fst (closeModal s), forget_selection (snd (closeModal s)))"
  by (simp add: closeModal_def forget_selection_def split: option.splits)

lemma forget_modal_click:
  "modal_click b (forget_selection s) = (fst (modal_click b s), forget_selection (snd (modal_click b s)))"
  by (simp add: modal_click_def forget_closeModal)

lemma forget_processBtn_click:
  "processBtn_click (forget_selection s) = (fst (processBtn_click s), forget_selection (snd (processBtn_click s)))"
  by (simp add: processBtn_click_def forget_selection_def split: option.splits)

lemma payment_timeout_amountBtns:
  "payment_timeout (s\<lparr>amountBtns := x\<rparr>) = (fst (payment_timeout s), (snd (payment_timeout s))\<lparr>amountBtns := x\<rparr>)"
  by (simp add: payment_timeout_def Let_def split: option.splits)

lemma forget_amountBtn_click:
  "fst (amountBtn_click i s) = None \<and> forget_selection (snd (amountBtn_click i s)) = forget_selection s"
  by (simp add: amountBtn_click_def forget_selection_def Let_def)

lemma fire_amountBtns:
  "fire ts (s\<lparr>amountBtns := x\<rparr>) = (fst (fire ts s), (snd (fire ts s))\<lparr>amountBtns := x\<rparr>)"
  by (induction ts arbitrary: s) (simp_all add: Let_def payment_timeout_amountBtns task_def split: option.splits)

lemma forget_elapse:
  "elapse d (forget_selection s) = (fst (elapse d s), forget_selection (snd (elapse d s)))"
proof -
  have sw: "s\<lparr>amountBtns := [], clock := c, timers := ts\<rparr> = s\<lparr>clock := c, timers := ts\<rparr>\<lparr>amountBtns := []\<rparr>" for c ts
    by simp
  show ?thesis
    by (simp add: elapse_def Let_def forget_selection_def sw fire_amountBtns)
qed

lemma updateCount_amountBtns:
  "updateCount c (s\<lparr>amountBtns := x\<rparr>) = (updateCount c s)\<lparr>amountBtns := x\<rparr>"
  by (simp add: updateCount_def Let_def)

lemma fold_updateCount_amountBtns:
  "fold updateCount l (s\<lparr>amountBtns := x\<rparr>) = (fold updateCount l s)\<lparr>amountBtns := x\<rparr>"
  by (induction l arbitrary: s) (simp_all add: updateCount_amountBtns)

lemma forget_animationFrame: "animationFrame (forget_selection s) = forget_selection (animationFrame s)"
proof -
  have sw: "s\<lparr>amountBtns := [], frames := []\<rparr> = s\<lparr>frames := []\<rparr>\<lparr>amountBtns := []\<rparr>"
    by simp
  show ?thesis
    by (simp add: animationFrame_def forget_selection_def sw fold_updateCount_amountBtns)
qed

lemma startCounter_amountBtns:
  "startCounter i (s\<lparr>amountBtns := x\<rparr>) = (startCounter i s)\<lparr>amountBtns := x\<rparr>"
  by (simp add: startCounter_def Let_def updateCount_amountBtns)

lemma fold_startCounter_amountBtns:
  "fold startCounter l (s\<lparr>amountBtns := x\<rparr>) = (fold startCounter l s)\<lparr>amountBtns := x\<rparr>"
  by (induction l arbitrary: s) (simp_all add: startCounter_amountBtns)

lemma animateCounters_amountBtns:
  "animateCounters (s\<lparr>amountBtns := x\<rparr>) = (animateCounters s)\<lparr>amountBtns := x\<rparr>"
  by (simp add: animateCounters_def fold_startCounter_amountBtns)

lemma observer_entry_amountBtns:
  "observer_entry b (s\<lparr>amountBtns := x\<rparr>) = (observer_entry b s)\<lparr>amountBtns := x\<rparr>"
proof -
  have sw: "s\<lparr>amountBtns := x, calls := cs\<rparr> = s\<lparr>calls := cs\<rparr>\<lparr>amountBtns := x\<rparr>" for cs
    by simp
  show ?thesis
    by (simp add: observer_entry_def Let_def sw animateCounters_amountBtns)
qed

lemma forget_observer_callback:
  "observer_callback es (forget_selection s) = forget_selection (observer_callback es s)"
  unfolding observer_callback_def forget_selection_def
  by (induction es arbitrary: s) (simp_all add: observer_entry_amountBtns)

lemma forget_listeners:
  "MenuToggleL \<in> set (App_init (forget_selection s)) = (MenuToggleL \<in> set (App_init s))"
  "OpenL \<in> set (App_init (forget_selection s)) = (OpenL \<in> set (App_init s))"
  "CloseL \<in> set (App_init (forget_selection s)) = (CloseL \<in> set (App_init s))"
  "CloseSuccessL \<in> set (App_init (forget_selection s)) = (CloseSuccessL \<in> set (App_init s))"
  "BackdropL \<in> set (App_init (forget_selection s)) = (BackdropL \<in> set (App_init s))"
  "ProcessL \<in> set (App_init (forget_selection s)) = (ProcessL \<in> set (App_init s))"
  "StatsObserverL \<in> set (App_init (forget_selection s)) = (StatsObserverL \<in> set (App_init s))"
  "links (forget_selection s) = links s" "openButtons (forget_selection s) = openButtons s"
  by (simp_all add: listener_iffs forget_selection_def)

lemma dispatch_forget:
  "fst (dispatch ev s) = (if is_amount_click ev then [] else fst (dispatch ev (forget_selection s)))
   \<and> forget_selection (snd (dispatch ev s)) =
     (if is_amount_click ev then forget_selection s else snd (dispatch ev (forget_selection s)))"
  by (cases ev)
    (simp_all add: dispatch_def forget_listeners task_def forget_menuToggle_click forget_link_click
      forget_openButton_click forget_closeModal forget_modal_click forget_processBtn_click
      forget_amountBtn_click forget_observer_callback forget_animationFrame forget_elapse
      split: option.splits)

lemma dispatch_low_equal:
  assumes "forget_selection s = forget_selection t"
  shows "fst (dispatch ev s) = fst (dispatch ev t)"
    and "forget_selection (snd (dispatch ev s)) = forget_selection (snd (dispatch ev t))"
  using dispatch_forget [of ev s] dispatch_forget [of ev t] assms by simp_all

lemma run_low_equal:
  "forget_selection s = forget_selection t \<Longrightarrow>
     fst (run evs s) = fst (run evs t)
     \<and> forget_selection (snd (run evs s)) = forget_selection (snd (run evs t))"
proof (induction evs arbitrary: s t)
  case Nil
  then show ?case by simp
next
  case (Cons ev evs)
  have "fst (run evs (snd (dispatch ev s))) = fst (run evs (snd (dispatch ev t)))
     \<and> forget_selection (snd (run evs (snd (dispatch ev s)))) = forget_selection (snd (run evs (snd (dispatch ev t))))"
    by (rule Cons.IH) (rule dispatch_low_equal(2) [OF Cons.prems])
  then show ?case
    using dispatch_low_equal(1) [OF Cons.prems, of ev] by (simp add: Let_def)
qed

lemma run_amount_clicks:
  "fst (run (map AmountBtnClick is) s) = []
   \<and> forget_selection (snd (run (map AmountBtnClick is) s)) = forget_selection s"
proof (induction "is" arbitrary: s)
  case Nil
  then show ?case by simp
next
  case (Cons i "is")
  have "fst (dispatch (AmountBtnClick i) s) = []"
    "forget_selection (snd (dispatch (AmountBtnClick i) s)) = forget_selection s"
    using dispatch_forget [of "AmountBtnClick i" s] by (simp_all add: dispatch_def task_def forget_amountBtn_click)
  then show ?case
    using Cons [of "snd (dispatch (AmountBtnClick i) s)"] by (simp add: Let_def)
qed

subsection \<open>One counter\<close>














section \<open>Navigation: closing the menu\<close>

text \<open>
  Claim C7. With the navigation panel and the toggle button present, \<open>closeMenu\<close> is
  idempotent. If the panel does not carry \<open>is-open\<close>, the call returns the page as it
  was: class, \<open>aria-expanded\<close> and glyph unchanged. Otherwise it removes \<open>is-open\<close>,
  sets \<open>aria-expanded\<close> to \<open>false\<close> and writes the menu glyph, and nothing else; a second
  call on the result changes nothing.
\<close>

theorem closeMenu_idempotent:
  assumes "mainNav s = Some nav" and "menuToggle s = Some tg"
  shows "(if contains ''is-open'' (classList nav)
          then closeMenu s = (None, s\<lparr>mainNav := Some (nav\<lparr>classList := remove ''is-open'' (classList nav)\<rparr>),
                                      menuToggle := Some (tg\<lparr>aria_expanded := Some ''false'', innerHTML := glyph_menu\<rparr>)\<rparr>)
          else closeMenu s = (None, s))
         \<and> closeMenu (snd (closeMenu s)) = (None, snd (closeMenu s))"
  using assms by (simp add: closeMenu_def Let_def)

text \<open>On the example page: open the menu with the toggle button, then close it twice.\<close>

theorem closeMenu_idempotent_witness:
  "let s = snd (dispatch MenuToggleClick foundation_page)
   in mainNav s = Some (blank\<lparr>classList := [''is-open'']\<rparr>)
      \<and> menuToggle s = Some (blank\<lparr>aria_expanded := Some ''true'', innerHTML := glyph_close\<rparr>)
      \<and> mainNav (snd (closeMenu s)) = Some blank
      \<and> menuToggle (snd (closeMenu s)) = Some (blank\<lparr>aria_expanded := Some ''false'', innerHTML := glyph_menu\<rparr>)
      \<and> closeMenu (snd (closeMenu s)) = (None, snd (closeMenu s))
      \<and> closeMenu foundation_page = (None, foundation_page)"
proof -
  define s where "s = snd (dispatch MenuToggleClick foundation_page)"
  have h: "mainNav s = Some (blank\<lparr>classList := [''is-open'']\<rparr>)"
    "menuToggle s = Some (blank\<lparr>aria_expanded := Some ''true'', innerHTML := glyph_close\<rparr>)"
    unfolding s_def by (simp_all add: handler_defs page_defs)
  have c: "closeMenu foundation_page = (None, foundation_page)"
    using closeMenu_idempotent [of foundation_page "blank" "blank\<lparr>innerHTML := glyph_menu\<rparr>"]
    by (simp add: page_defs contains_def)
  note th = closeMenu_idempotent [OF h]
  have a: "closeMenu s = (None, s\<lparr>mainNav := Some blank,
      menuToggle := Some (blank\<lparr>aria_expanded := Some ''false'', innerHTML := glyph_menu\<rparr>)\<rparr>)"
    using conjunct1 [OF th] by (simp add: contains_def remove_def blank_def)
  have b: "closeMenu (snd (closeMenu s)) = (None, snd (closeMenu s))"
    using th by (rule conjunct2)
  have "mainNav (snd (closeMenu s)) = Some blank
      \<and> menuToggle (snd (closeMenu s)) = Some (blank\<lparr>aria_expanded := Some ''false'', innerHTML := glyph_menu\<rparr>)
      \<and> closeMenu (snd (closeMenu s)) = (None, snd (closeMenu s))"
    using b by (simp add: a)
  then show ?thesis
    unfolding Let_def s_def [symmetric] using h c by blast
qed

text \<open>
  Claim C9. \<open>Navigation.init\<close> attaches nothing when the toggle button or the panel is
  absent, so a click on the toggle does nothing. \<open>closeMenu\<close> has no such guard: with the
  panel absent it raises \<open>TypeError\<close>, and so does the click handler of a fragment link
  whose target exists, after it has scrolled and called \<open>closeMenu\<close>.
\<close>

theorem closeMenu_unguarded:
  "(menuToggle s = None \<or> mainNav s = None \<longrightarrow>
      Navigation_init s = [] \<and> dispatch MenuToggleClick s = ([], s))
   \<and> (mainNav s = None \<longrightarrow>
      closeMenu s = (Some TypeError, s)
      \<and> (\<forall>href el. href \<noteq> ''#'' \<and> querySelector s href = Inr (Some el) \<longrightarrow>
            link_click href s =
              (Some TypeError,
               s\<lparr>calls := calls s @ [PreventDefault, ScrollIntoView el ''smooth'' ''start'', CloseMenu]\<rparr>)))"
  by (auto simp: Navigation_init_def dispatch_def MenuToggleL_iff closeMenu_def link_click_def Let_def split: option.splits)

text \<open>The example page without its navigation panel, and a click on the link \<open>#team\<close>.\<close>

theorem closeMenu_unguarded_witness:
  "mainNav (foundation_page\<lparr>mainNav := None\<rparr>) = None
   \<and> Navigation_init (foundation_page\<lparr>mainNav := None\<rparr>) = []
   \<and> closeMenu (foundation_page\<lparr>mainNav := None\<rparr>) = (Some TypeError, foundation_page\<lparr>mainNav := None\<rparr>)
   \<and> dispatch (LinkClick ''#team'') (foundation_page\<lparr>mainNav := None\<rparr>) =
       ([TypeError], foundation_page\<lparr>mainNav := None,
           calls := [PreventDefault, ScrollIntoView 0 ''smooth'' ''start'', CloseMenu]\<rparr>)"
  using closeMenu_unguarded [of "foundation_page\<lparr>mainNav := None\<rparr>"]
  by (simp add: dispatch_def task_def foundation_page_def)

section \<open>DonationModal\<close>

text \<open>
  Claim C1 says that a handler whose step container is missing is skipped without an
  error; the script does not do that. It guards \<open>closeBtn\<close>, \<open>closeSuccessBtn\<close> and \<open>processBtn\<close>, but
  \<open>resetModal\<close> and the timer callback write \<open>step1.style.display\<close> and
  \<open>step2.style.display\<close> unguarded. On the example page without \<open>step1\<close>, a click on
  an open button raises \<open>TypeError\<close> after the overlay was made visible; without
  \<open>step2\<close>, the payment timer raises \<open>TypeError\<close> when it fires.
\<close>

theorem resetModal_unguarded:
  "dispatch (OpenButtonClick 0) (foundation_page\<lparr>step1 := None\<rparr>) =
     ([TypeError], foundation_page\<lparr>step1 := None, calls := [PreventDefault],
          modal := Some (blank\<lparr>classList := [''is-visible'']\<rparr>)\<rparr>)
   \<and> fst (run [ProcessBtnClick, Elapse 2000] (foundation_page\<lparr>step2 := None\<rparr>)) = [TypeError]"
  by (simp add: dispatch_def listener_iffs task_def foundation_page_def openButton_click_def resetModal_def add_def blank_def
      processBtn_click_def elapse_def payment_timeout_def Let_def)

text \<open>
  Claim C5. Whatever events came before, a click on an open button shows the overlay and
  resets the modal: \<open>is-visible\<close> is on the modal root, step 1 is displayed as
  \<open>block\<close>, step 2 as \<open>none\<close>, and the payment button (when there is one) has its
  default label, opacity 1 and is enabled. Nothing else on the page changes but the record
  of the \<open>preventDefault\<close> call. The modal root and both step containers exist.
\<close>

theorem openButton_click_resets:
  assumes "modal s0 \<noteq> None" and "step1 s0 \<noteq> None" and "step2 s0 \<noteq> None"
    and "i < length (openButtons s0)" and "s = snd (run evs s0)"
  shows "\<exists>m e1 e2. modal s = Some m \<and> step1 s = Some e1 \<and> step2 s = Some e2 \<and>
    dispatch (OpenButtonClick i) s =
      ([], s\<lparr>calls := calls s @ [PreventDefault],
             modal := Some (m\<lparr>classList := add ''is-visible'' (classList m)\<rparr>),
             step1 := Some (e1\<lparr>display := ''block''\<rparr>),
             step2 := Some (e2\<lparr>display := ''none''\<rparr>),
             processBtn := map_option
               (\<lambda>b. b\<lparr>innerText := label_confirm, opacity := ''1'', disabled := False\<rparr>) (processBtn s)\<rparr>)
    \<and> contains ''is-visible'' (add ''is-visible'' (classList m))"
proof -
  have w: "wiring s = wiring s0"
    using assms(5) by simp
  obtain m e1 e2 where p: "modal s = Some m" "step1 s = Some e1" "step2 s = Some e2"
    using assms(1-3) wiring_fields(3,5,6) [OF w] by auto
  have "i < length (openButtons s)"
    using assms(4) wiring_fields(9) [OF w] by simp
  then have "dispatch (OpenButtonClick i) s = task (openButton_click s)"
    using p by (auto simp: dispatch_def OpenL_iff)
  then show ?thesis
    using p openButton_click_present [OF p] by (simp add: task_def)
qed

text \<open>
  On the example page: open, pick an amount, pay, wait two seconds and close the success
  view; the modal is then hidden at step 2 with the button disabled. The next click on an
  open button resets all of it.
\<close>

theorem openButton_click_resets_witness:
  "let s = snd (run [OpenButtonClick 1, AmountBtnClick 1, ProcessBtnClick, Elapse 2000, CloseSuccessBtnClick]
             foundation_page);
       s' = snd (dispatch (OpenButtonClick 0) s)
   in modal foundation_page \<noteq> None \<and> step1 foundation_page \<noteq> None \<and> step2 foundation_page \<noteq> None
      \<and> 0 < length (openButtons foundation_page)
      \<and> map_option display (step1 s) = Some ''none''
      \<and> map_option display (step2 s) = Some ''block''
      \<and> map_option disabled (processBtn s) = Some True
      \<and> map_option classList (modal s) = Some []
      \<and> fst (dispatch (OpenButtonClick 0) s) = []
      \<and> map_option classList (modal s') = Some [''is-visible'']
      \<and> map_option display (step1 s') = Some ''block''
      \<and> map_option display (step2 s') = Some ''none''
      \<and> map_option disabled (processBtn s') = Some False
      \<and> map_option opacity (processBtn s') = Some ''1''
      \<and> map_option innerText (processBtn s') = Some label_confirm"
proof -
  define s where "s = snd (run [OpenButtonClick 1, AmountBtnClick 1, ProcessBtnClick, Elapse 2000,
    CloseSuccessBtnClick] foundation_page)"
  have h: "modal foundation_page \<noteq> None" "step1 foundation_page \<noteq> None" "step2 foundation_page \<noteq> None"
    "0 < length (openButtons foundation_page)"
    by (simp_all add: page_defs)
  have before: "map_option display (step1 s) = Some ''none''" "map_option display (step2 s) = Some ''block''"
    "map_option disabled (processBtn s) = Some True" "map_option classList (modal s) = Some []"
    unfolding s_def by code_simp+
  from openButton_click_resets [OF h s_def] obtain m e1 e2 where
    p: "modal s = Some m" "step1 s = Some e1" "step2 s = Some e2" and
    d: "dispatch (OpenButtonClick 0) s =
      ([], s\<lparr>calls := calls s @ [PreventDefault],
             modal := Some (m\<lparr>classList := add ''is-visible'' (classList m)\<rparr>),
             step1 := Some (e1\<lparr>display := ''block''\<rparr>),
             step2 := Some (e2\<lparr>display := ''none''\<rparr>),
             processBtn := map_option
               (\<lambda>b. b\<lparr>innerText := label_confirm, opacity := ''1'', disabled := False\<rparr>) (processBtn s)\<rparr>)"
    by blast
  have "classList m = []"
    using before(4) p(1) by simp
  then have after: "fst (dispatch (OpenButtonClick 0) s) = []"
    "map_option classList (modal (snd (dispatch (OpenButtonClick 0) s))) = Some [''is-visible'']"
    "map_option display (step1 (snd (dispatch (OpenButtonClick 0) s))) = Some ''block''"
    "map_option display (step2 (snd (dispatch (OpenButtonClick 0) s))) = Some ''none''"
    "map_option disabled (processBtn (snd (dispatch (OpenButtonClick 0) s))) = Some False"
    "map_option opacity (processBtn (snd (dispatch (OpenButtonClick 0) s))) = Some ''1''"
    "map_option innerText (processBtn (snd (dispatch (OpenButtonClick 0) s))) = Some label_confirm"
    using before(3) by (auto simp: d add_def)
  show ?thesis
    unfolding Let_def s_def [symmetric] using h before after by blast
qed

text \<open>
  Claim C8. After any sequence of clicks on amount buttons that ends with a click on
  button \<open>i\<close>, exactly button \<open>i\<close> carries \<open>selected\<close>; and from then on, whatever
  events follow, at most one amount button is selected. The same bound holds from the
  start when the page's markup selects at most one button.
\<close>

theorem amount_single_selection:
  assumes "modal s \<noteq> None" and "i < length (amountBtns s)"
    and "s' = snd (run (map AmountBtnClick js @ [AmountBtnClick i]) s)"
  shows "length (amountBtns s') = length (amountBtns s)
    \<and> (\<forall>j < length (amountBtns s'). contains ''selected'' (classList (amountBtns s' ! j)) = (j = i))
    \<and> selected_count s' = 1
    \<and> selected_count (snd (run evs s')) \<le> 1
    \<and> (selected_count s \<le> 1 \<longrightarrow> selected_count (snd (run evs s)) \<le> 1)"
proof -
  let ?u = "snd (run (map AmountBtnClick js) s)"
  have w: "wiring ?u = wiring s" by simp
  have m: "modal ?u \<noteq> None" and l: "length (amountBtns ?u) = length (amountBtns s)"
    using assms(1) wiring_fields(3,7) [OF w] by auto
  have "dispatch (AmountBtnClick i) ?u = task (amountBtn_click i ?u)"
    using m l assms(2) by (auto simp: dispatch_def AmountL_iff)
  then have s': "s' = snd (amountBtn_click i ?u)"
    using assms(3) by (simp add: run_append Let_def)
  have i: "i < length (amountBtns ?u)" using l assms(2) by simp
  show ?thesis
    using amountBtn_click_selected [OF i] l selected_count_run [of s' evs] selected_count_run [of s evs]
    by (simp add: s')
qed

text \<open>On the example page: the three amount buttons clicked in turn.\<close>

theorem amount_single_selection_witness:
  "let s' = snd (run [AmountBtnClick 0, AmountBtnClick 1, AmountBtnClick 2] foundation_page)
   in modal foundation_page \<noteq> None \<and> 2 < length (amountBtns foundation_page)
      \<and> length (amountBtns s') = 3
      \<and> contains ''selected'' (classList (amountBtns s' ! 2))
      \<and> \<not> contains ''selected'' (classList (amountBtns s' ! 0))
      \<and> \<not> contains ''selected'' (classList (amountBtns s' ! 1))
      \<and> selected_count s' = 1
      \<and> selected_count (snd (run [OpenButtonClick 0, ProcessBtnClick] s')) \<le> 1"
proof -
  define s' where "s' = snd (run (map AmountBtnClick [0, 1] @ [AmountBtnClick 2]) foundation_page)"
  have h: "modal foundation_page \<noteq> None" "2 < length (amountBtns foundation_page)"
    by (simp_all add: page_defs)
  have l: "length (amountBtns foundation_page) = 3"
    by (simp add: page_defs)
  have "length (amountBtns s') = 3 \<and> contains ''selected'' (classList (amountBtns s' ! 2))
      \<and> \<not> contains ''selected'' (classList (amountBtns s' ! 0))
      \<and> \<not> contains ''selected'' (classList (amountBtns s' ! 1))
      \<and> selected_count s' = 1
      \<and> selected_count (snd (run [OpenButtonClick 0, ProcessBtnClick] s')) \<le> 1"
    using amount_single_selection [OF h s'_def, of "[OpenButtonClick 0, ProcessBtnClick]"] l by simp
  then show ?thesis
    unfolding Let_def using h by (simp add: s'_def)
qed

text \<open>
  Claim C4. A click on the payment button sets its label to \<open>Procesando...\<close>, its
  opacity to 0.7 and disables it, at once, and starts a timer due 2000 ms later. Whatever
  events happen in less than 2000 ms, the timer stays pending: nothing cancels it. When
  the clock reaches the due time the callback runs without error: step 1 is hidden, step 2
  is shown, and nothing else changes but the clock and the timer list, so the button stays
  as it was. If no other timer is pending, the passing of less than 2000 ms changes
  nothing but the clock. The modal root, the button and both step containers exist.
\<close>

theorem processBtn_click_then_timeout:
  assumes "modal s \<noteq> None" and "processBtn s = Some b" and "step1 s \<noteq> None" and "step2 s \<noteq> None"
    and "s1 = snd (dispatch ProcessBtnClick s)" and "u = snd (run evs s1)" and "elapsed evs < 2000"
  shows "dispatch ProcessBtnClick s =
           ([], s\<lparr>processBtn := Some (b\<lparr>innerText := label_processing, opacity := ''0.7'', disabled := True\<rparr>),
                  timers := timers s @ [clock s + 2000]\<rparr>)
    \<and> clock s + 2000 \<in> set (timers u)
    \<and> (\<exists>e1 e2 ts. step1 u = Some e1 \<and> step2 u = Some e2 \<and> clock s + 2000 \<notin> set ts \<and>
          dispatch (Elapse (2000 - elapsed evs)) u =
            ([], u\<lparr>clock := clock s + 2000, timers := ts,
                   step1 := Some (e1\<lparr>display := ''none''\<rparr>),
                   step2 := Some (e2\<lparr>display := ''block''\<rparr>)\<rparr>))
    \<and> (timers s = [] \<longrightarrow> (\<forall>d < 2000. dispatch (Elapse d) s1 = ([], s1\<lparr>clock := clock s + d\<rparr>)))"
proof -
  have click: "dispatch ProcessBtnClick s =
           ([], s\<lparr>processBtn := Some (b\<lparr>innerText := label_processing, opacity := ''0.7'', disabled := True\<rparr>),
                  timers := timers s @ [clock s + 2000]\<rparr>)"
    using assms(1,2) by (simp add: dispatch_def ProcessL_iff processBtn_click_def task_def)
  then have s1: "s1 = s\<lparr>processBtn := Some (b\<lparr>innerText := label_processing, opacity := ''0.7'', disabled := True\<rparr>),
                  timers := timers s @ [clock s + 2000]\<rparr>"
    using assms(5) by simp
  have c1: "clock s1 = clock s" and d1: "clock s + 2000 \<in> set (timers s1)"
    by (simp_all add: s1)
  have cu: "clock u = clock s + elapsed evs"
    using run_clock_timers [where s = s1 and evs = evs] c1 assms(6) by simp
  have pend: "clock s + 2000 \<in> set (timers u)"
    using run_clock_timers [where due = "clock s + 2000" and s = s1 and evs = evs] c1 d1 assms(6,7) by simp
  have w: "wiring u = wiring s"
    using assms(5,6) by simp
  obtain e1 e2 where p: "step1 u = Some e1" "step2 u = Some e2"
    using assms(3,4) wiring_fields(5,6) [OF w] by auto
  let ?due = "filter (\<lambda>due. due \<le> clock s + 2000) (timers u)"
  let ?ts = "filter (\<lambda>due. clock s + 2000 < due) (timers u)"
  let ?u0 = "u\<lparr>clock := clock s + 2000, timers := ?ts\<rparr>"
  have ne: "?due \<noteq> []"
    using pend by (auto simp: filter_empty_conv)
  have t: "clock u + (2000 - elapsed evs) = clock s + 2000"
    using cu assms(7) by simp
  have "fire ?due ?u0 = ([], ?u0\<lparr>step1 := Some (e1\<lparr>display := ''none''\<rparr>), step2 := Some (e2\<lparr>display := ''block''\<rparr>)\<rparr>)"
    by (rule fire_present) (use p ne in simp_all)
  then have fired: "dispatch (Elapse (2000 - elapsed evs)) u =
            ([], u\<lparr>clock := clock s + 2000, timers := ?ts,
                   step1 := Some (e1\<lparr>display := ''none''\<rparr>),
                   step2 := Some (e2\<lparr>display := ''block''\<rparr>)\<rparr>)"
    by (simp add: dispatch_def elapse_def Let_def t)
  have "clock s + 2000 \<notin> set ?ts" by simp
  then have third: "\<exists>e1 e2 ts. step1 u = Some e1 \<and> step2 u = Some e2 \<and> clock s + 2000 \<notin> set ts \<and>
          dispatch (Elapse (2000 - elapsed evs)) u =
            ([], u\<lparr>clock := clock s + 2000, timers := ts,
                   step1 := Some (e1\<lparr>display := ''none''\<rparr>),
                   step2 := Some (e2\<lparr>display := ''block''\<rparr>)\<rparr>)"
    using p fired by blast
  have fourth: "dispatch (Elapse d) s1 = ([], s1\<lparr>clock := clock s + d\<rparr>)" if "timers s = []" "d < 2000" for d
    using that by (simp add: dispatch_def elapse_def Let_def s1)
  show ?thesis
    using click pend third fourth by blast
qed

text \<open>
  On the example page: pay, pick an amount, wait 1998 ms (the steps are as before and the
  timer is pending), then 2 ms more.
\<close>

theorem processBtn_click_then_timeout_witness:
  "let s1 = snd (dispatch ProcessBtnClick foundation_page);
       u = snd (run [AmountBtnClick 1, Elapse 1998] s1);
       r = dispatch (Elapse 2) u
   in modal foundation_page \<noteq> None \<and> processBtn foundation_page = Some (blank\<lparr>innerText := label_confirm\<rparr>)
      \<and> step1 foundation_page \<noteq> None \<and> step2 foundation_page \<noteq> None
      \<and> elapsed [AmountBtnClick 1, Elapse 1998] < 2000
      \<and> processBtn s1 = Some (blank\<lparr>innerText := label_processing, opacity := ''0.7'', disabled := True\<rparr>)
      \<and> timers s1 = [2000]
      \<and> step1 u = Some blank \<and> step2 u = Some blank \<and> 2000 \<in> set (timers u)
      \<and> fst r = []
      \<and> step1 (snd r) = Some (blank\<lparr>display := ''none''\<rparr>)
      \<and> step2 (snd r) = Some (blank\<lparr>display := ''block''\<rparr>)
      \<and> processBtn (snd r) = processBtn s1
      \<and> 2000 \<notin> set (timers (snd r))"
proof -
  define s1 where "s1 = snd (dispatch ProcessBtnClick foundation_page)"
  define u where "u = snd (run [AmountBtnClick 1, Elapse 1998] s1)"
  have h: "modal foundation_page \<noteq> None" "processBtn foundation_page = Some (blank\<lparr>innerText := label_confirm\<rparr>)"
    "step1 foundation_page \<noteq> None" "step2 foundation_page \<noteq> None"
    by (simp_all add: page_defs)
  have e: "elapsed [AmountBtnClick 1, Elapse 1998] < 2000" by simp
  have c0: "clock foundation_page = 0" "timers foundation_page = []" by (simp_all add: page_defs)
  note th = processBtn_click_then_timeout [OF h s1_def u_def e]
  have s1: "processBtn s1 = Some (blank\<lparr>innerText := label_processing, opacity := ''0.7'', disabled := True\<rparr>)"
    "timers s1 = [2000]"
    unfolding s1_def using conjunct1 [OF th] c0 by (simp_all add: blank_def)
  have pend: "2000 \<in> set (timers u)"
    using th c0 by simp
  have su: "step1 u = Some blank" "step2 u = Some blank" "processBtn u = processBtn s1"
    unfolding u_def s1_def by (simp_all add: handler_defs page_defs)
  from th obtain e1 e2 ts where f: "step1 u = Some e1" "step2 u = Some e2"
      "clock foundation_page + 2000 \<notin> set ts"
      "dispatch (Elapse (2000 - elapsed [AmountBtnClick 1, Elapse 1998])) u =
         ([], u\<lparr>clock := clock foundation_page + 2000, timers := ts,
                step1 := Some (e1\<lparr>display := ''none''\<rparr>), step2 := Some (e2\<lparr>display := ''block''\<rparr>)\<rparr>)"
    by blast
  have "2000 - elapsed [AmountBtnClick 1, Elapse 1998] = 2" by simp
  then have r: "dispatch (Elapse 2) u =
         ([], u\<lparr>clock := 2000, timers := ts,
                step1 := Some (blank\<lparr>display := ''none''\<rparr>), step2 := Some (blank\<lparr>display := ''block''\<rparr>)\<rparr>)"
    using f su c0 by simp
  show ?thesis
    unfolding Let_def s1_def [symmetric] u_def [symmetric]
    using h e s1 su pend f(3) c0 by (simp add: r)
qed

text \<open>
  Claim C10. No handler reads which amount button is selected. Two pages that differ only
  in their amount buttons raise the same errors and stay equal up to their amount buttons
  under every list of events; so two runs that differ only in the amount clicks made
  first end with the same payment button, step containers and modal root.
\<close>

theorem selection_never_read:
  "(forget_selection s = forget_selection t \<longrightarrow>
      fst (run evs s) = fst (run evs t)
      \<and> forget_selection (snd (run evs s)) = forget_selection (snd (run evs t)))
   \<and> fst (run (map AmountBtnClick is @ evs) s) = fst (run (map AmountBtnClick js @ evs) s)
   \<and> processBtn (snd (run (map AmountBtnClick is @ evs) s)) = processBtn (snd (run (map AmountBtnClick js @ evs) s))
   \<and> step1 (snd (run (map AmountBtnClick is @ evs) s)) = step1 (snd (run (map AmountBtnClick js @ evs) s))
   \<and> step2 (snd (run (map AmountBtnClick is @ evs) s)) = step2 (snd (run (map AmountBtnClick js @ evs) s))
   \<and> modal (snd (run (map AmountBtnClick is @ evs) s)) = modal (snd (run (map AmountBtnClick js @ evs) s))"
proof -
  let ?a = "snd (run (map AmountBtnClick is) s)" and ?b = "snd (run (map AmountBtnClick js) s)"
  have ab: "forget_selection ?a = forget_selection ?b"
    using run_amount_clicks [of "is" s] run_amount_clicks [of js s] by simp
  note r = run_low_equal [OF ab, of evs]
  have e: "fst (run (map AmountBtnClick is @ evs) s) = fst (run (map AmountBtnClick js @ evs) s)"
    using r run_amount_clicks [of "is" s] run_amount_clicks [of js s] by (simp add: run_append)
  have f: "forget_selection (snd (run (map AmountBtnClick is @ evs) s))
      = forget_selection (snd (run (map AmountBtnClick js @ evs) s))"
    using r by (simp add: run_append)
  show ?thesis
    using run_low_equal [of s t evs] e forget_fields(1-4) [OF f] by blast
qed

text \<open>On the example page: paying after two amount clicks, and after none.\<close>

theorem selection_never_read_witness:
  "forget_selection (snd (run [AmountBtnClick 0] foundation_page)) = forget_selection foundation_page
   \<and> processBtn (snd (run (map AmountBtnClick [0, 2] @ [ProcessBtnClick, Elapse 2000]) foundation_page))
       = processBtn (snd (run (map AmountBtnClick [] @ [ProcessBtnClick, Elapse 2000]) foundation_page))
   \<and> step1 (snd (run (map AmountBtnClick [0, 2] @ [ProcessBtnClick, Elapse 2000]) foundation_page))
       = step1 (snd (run (map AmountBtnClick [] @ [ProcessBtnClick, Elapse 2000]) foundation_page))
   \<and> step2 (snd (run (map AmountBtnClick [0, 2] @ [ProcessBtnClick, Elapse 2000]) foundation_page))
       = step2 (snd (run (map AmountBtnClick [] @ [ProcessBtnClick, Elapse 2000]) foundation_page))
   \<and> map classList (amountBtns (snd (run (map AmountBtnClick [0, 2] @ [ProcessBtnClick, Elapse 2000]) foundation_page)))
       = [[], [], [''selected'']]
   \<and> map classList (amountBtns (snd (run (map AmountBtnClick [] @ [ProcessBtnClick, Elapse 2000]) foundation_page)))
       = [[], [], []]"
proof -
  have a: "forget_selection (snd (run [AmountBtnClick 0] foundation_page)) = forget_selection foundation_page"
    by (simp add: handler_defs page_defs forget_selection_def)
  note th = selection_never_read [of foundation_page foundation_page "[ProcessBtnClick, Elapse 2000]" "[0, 2]" "[]"]
  have b: "map classList (amountBtns (snd (run (map AmountBtnClick [0, 2] @ [ProcessBtnClick, Elapse 2000]) foundation_page)))
       = [[], [], [''selected'']]"
    "map classList (amountBtns (snd (run (map AmountBtnClick [] @ [ProcessBtnClick, Elapse 2000]) foundation_page)))
       = [[], [], []]"
    by code_simp+
  show ?thesis
    using a b th by blast
qed

section \<open>SmoothScroll\<close>




section \<open>StatsAnimation\<close>

text \<open>
  Claim C3. From a page whose flag is unset, the first callback of the observer that has
  an intersecting entry calls \<open>animateCounters\<close> once, sets the flag and unobserves the
  section, in this order. Before it the animation has not run; after it, whatever events
  follow (entries and exits of the section among them), the flag stays set and the number
  of calls of \<open>animateCounters\<close> stays one more than at the start. Under any list of
  events the animation runs at most once.
\<close>

theorem animation_runs_once:
  assumes "\<not> hasAnimated s" and "statsSection s \<noteq> None"
    and "u = snd (run before s)" and "\<not> hasAnimated u" and "True \<in> set entries"
    and "t = snd (dispatch (Intersection entries) u)"
  shows "animations u = animations s
    \<and> hasAnimated t
    \<and> calls t = calls u @ [AnimateCounters, Unobserve]
    \<and> counters t = counters (animateCounters u) \<and> frames t = frames (animateCounters u)
    \<and> animations t = animations s + 1
    \<and> hasAnimated (snd (run later t))
    \<and> animations (snd (run later t)) = animations s + 1
    \<and> animations (snd (run evs s)) \<le> animations s + 1"
proof -
  have au: "animations u = animations s"
    using run_animations [of s before] assms(1,3,4) by simp
  have w: "wiring u = wiring s" using assms(3) by simp
  have "statsSection u \<noteq> None"
    using assms(2) wiring_fields(13) [OF w] by simp
  then have t: "t = observer_entry True u"
    using assms(4,5,6) by (simp add: dispatch_def StatsObserverL_iff observer_callback_def fold_observer_entry_first)
  note e = observer_entry_True [OF assms(4)]
  have at: "animations t = animations s + 1"
    using e(2) au by (simp add: t animations_def)
  have l: "hasAnimated (snd (run later t)) \<and> animations (snd (run later t)) = animations t"
    using run_animations [of t later] e(1) by (simp add: t)
  have "animations (snd (run evs s)) \<le> animations s + 1"
    using run_animations [of s evs] assms(1) by simp
  then show ?thesis
    using au e at l by (simp add: t)
qed

text \<open>
  On the example page: the section is reported outside first, then inside twice in one
  callback, then outside and inside again.
\<close>

theorem animation_runs_once_witness:
  "let u = snd (run [Intersection [False], LinkClick ''#team''] foundation_page);
       t = snd (dispatch (Intersection [False, True, True]) u);
       v = snd (run [Intersection [False], Intersection [True], AnimationFrame, Intersection [True, True]] t)
   in \<not> hasAnimated foundation_page \<and> statsSection foundation_page \<noteq> None \<and> \<not> hasAnimated u
      \<and> animations foundation_page = 0 \<and> animations u = 0
      \<and> hasAnimated t \<and> animations t = 1
      \<and> calls t = [PreventDefault, ScrollIntoView 0 ''smooth'' ''start'', CloseMenu, AnimateCounters, Unobserve]
      \<and> hasAnimated v \<and> animations v = 1"
proof -
  define u where "u = snd (run [Intersection [False], LinkClick ''#team''] foundation_page)"
  define t where "t = snd (dispatch (Intersection [False, True, True]) u)"
  define v where "v = snd (run [Intersection [False], Intersection [True], AnimationFrame, Intersection [True, True]] t)"
  have h: "\<not> hasAnimated foundation_page" "statsSection foundation_page \<noteq> None"
    by (simp_all add: page_defs)
  have a0: "animations foundation_page = 0"
    by (simp add: animations_def page_defs)
  have hu: "\<not> hasAnimated u" and cu: "calls u = [PreventDefault, ScrollIntoView 0 ''smooth'' ''start'', CloseMenu]"
    unfolding u_def
    by (simp_all add: handler_defs page_defs observer_callback_def observer_entry_def)
  have e: "True \<in> set [False, True, True]" by simp
  note th = animation_runs_once [OF h u_def hu e t_def,
    where later = "[Intersection [False], Intersection [True], AnimationFrame, Intersection [True, True]]"
      and evs = "[]", folded v_def]
  show ?thesis
    unfolding Let_def u_def [symmetric] t_def [symmetric] v_def [symmetric]
    using h hu a0 cu th by simp
qed



end
